theory Spec2Isabelle
  imports Main "HOL-Library.Sublist"
begin

section \<open>The rule \<open>no-bare-strings-in-template\<close>\<close>

text \<open>
  A shallow embedding of \<^verbatim>\<open>lib/rules/no-bare-strings-in-template.js\<close>: the
  whitelist pattern and \<^verbatim>\<open>getBareString\<close>, the memoised resolver
  \<^verbatim>\<open>getTargetAttrs\<close>, the element stack and the four visitor handlers.
\<close>

subsection \<open>Strings\<close>

text \<open>
  A JavaScript string is the list of its UTF-16 code units. \<open>js\<close> writes a literal.
\<close>

type_synonym jsstring = "nat list"

abbreviation (input) js :: "string \<Rightarrow> jsstring" where
  "js s \<equiv> map of_char s"

text \<open>
  \<^verbatim>\<open>String.prototype.trim\<close> removes the WhiteSpace and LineTerminator code
  points of ECMAScript from both ends: TAB, LF, VT, FF, CR, SP, NBSP, U+1680,
  U+2000 to U+200A, U+2028, U+2029, U+202F, U+205F, U+3000 and U+FEFF.
\<close>

definition isWhiteSpace :: "nat \<Rightarrow> bool" where
  "isWhiteSpace c \<longleftrightarrow>
     c \<in> set [9, 10, 11, 12, 13, 32, 160, 5760, 8232, 8233, 8239, 8287, 12288, 65279]
     \<or> (8192 \<le> c \<and> c \<le> 8202)"

definition trim :: "jsstring \<Rightarrow> jsstring" where
  "trim s = rev (dropWhile isWhiteSpace (rev (dropWhile isWhiteSpace s)))"

text \<open>
  A pattern with the \<^verbatim>\<open>u\<close> flag reads the string by code points: a high surrogate
  (U+D800 to U+DBFF) followed by a low surrogate (U+DC00 to U+DFFF) is one code point of
  two code units, and every other code unit is a code point by itself.
\<close>

definition isHighSurrogate :: "nat \<Rightarrow> bool" where
  "isHighSurrogate u \<longleftrightarrow> 55296 \<le> u \<and> u \<le> 56319"

definition isLowSurrogate :: "nat \<Rightarrow> bool" where
  "isLowSurrogate u \<longleftrightarrow> 56320 \<le> u \<and> u \<le> 57343"

definition startsWithPair :: "jsstring \<Rightarrow> bool" where
  "startsWithPair s \<longleftrightarrow>
     (case s of u # v # rest \<Rightarrow> isHighSurrogate u \<and> isLowSurrogate v | _ \<Rightarrow> False)"

text \<open>The number of code units of the code point at the start of a non-empty string.\<close>

definition codePointLength :: "jsstring \<Rightarrow> nat" where
  "codePointLength s = (if startsWithPair s then 2 else 1)"

subsection \<open>The whitelist pattern\<close>

text \<open>
  Modelled from the spec: \<^verbatim>\<open>regexp.escape\<close> (\<^verbatim>\<open>lib/utils/regexp.js\<close>) is
  not among the sources. By the spec it escapes every entry so that the entry is
  matched literally, and the entries are joined as alternatives. The compiled pattern
  \<^verbatim>\<open>new RegExp(whitelist.map((w) => regexp.escape(w)).join('|'), 'gu')\<close> is
  therefore represented by the ordered list of its literal alternatives; joining an
  empty array gives the empty pattern, whose only alternative is the empty string.
\<close>

definition whitelistRe :: "jsstring list \<Rightarrow> jsstring list" where
  "whitelistRe whitelist = (if whitelist = [] then [[]] else whitelist)"

text \<open>
  Whether the literal \<open>w\<close> matches at the start of \<open>s\<close>, a code point boundary: the
  code units of \<open>w\<close> are a prefix of \<open>s\<close>, and the match does not end inside a
  surrogate pair of \<open>s\<close> (a pattern that ends in a lone high surrogate does not match
  the first half of a pair).
\<close>

definition matchesLiteral :: "jsstring \<Rightarrow> jsstring \<Rightarrow> bool" where
  "matchesLiteral w s \<longleftrightarrow>
     prefix w s
     \<and> \<not> (w \<noteq> [] \<and> isHighSurrogate (last w)
            \<and> (case drop (length w) s of [] \<Rightarrow> False | v # rest \<Rightarrow> isLowSurrogate v))"

text \<open>
  A match attempt at the start of \<open>s\<close>: the alternatives are tried in order and the
  first one that matches is the match.
\<close>

fun matchAt :: "jsstring list \<Rightarrow> jsstring \<Rightarrow> jsstring option" where
  "matchAt [] s = None"
| "matchAt (w # ws) s = (if matchesLiteral w s then Some w else matchAt ws s)"

text \<open>
  \<^verbatim>\<open>str.replace(re, '')\<close> for a global pattern with the \<^verbatim>\<open>u\<close> flag: scan from the
  left; a match is removed and the scan goes on after it; where nothing matches, or the
  match is empty, the code point at that place is kept and the scan advances past it.
  The result is the concatenation of the code units kept, so a lone high surrogate and a
  lone low surrogate that a removal leaves side by side are one code point for whoever
  reads the result next.
\<close>

function replaceAll :: "jsstring list \<Rightarrow> jsstring \<Rightarrow> jsstring" where
  "replaceAll re [] = []"
| "replaceAll re (c # cs) =
     (case matchAt re (c # cs) of
        None \<Rightarrow>
          take (codePointLength (c # cs)) (c # cs)
            @ replaceAll re (drop (codePointLength (c # cs)) (c # cs))
      | Some w \<Rightarrow>
          if w = [] then
            take (codePointLength (c # cs)) (c # cs)
              @ replaceAll re (drop (codePointLength (c # cs)) (c # cs))
          else replaceAll re (drop (length w) (c # cs)))"
  by pat_completeness auto
termination
  by (relation "measure (\<lambda>(re, s). length s)") (auto simp: codePointLength_def)

definition getBareString :: "jsstring list \<Rightarrow> jsstring \<Rightarrow> jsstring" where
  "getBareString whitelist str = trim (replaceAll (whitelistRe whitelist) (trim str))"

subsection \<open>Syntax tree nodes and reports\<close>

text \<open>
  The parts of the template syntax tree the rule reads. An ESTree expression is kept
  up to its \<^verbatim>\<open>type\<close>; a \<^verbatim>\<open>Literal\<close> keeps the kind of its value, which is
  what \<^verbatim>\<open>typeof expression.value\<close> inspects.
\<close>

datatype literal_value =
    StringValue jsstring
  | NumberValue
  | BooleanValue bool
  | NullValue
  | RegExpValue
  | BigIntValue

datatype expression =
    Literal literal_value
  | Identifier jsstring
  | TemplateLiteral
  | CallExpression
  | OtherExpression

text \<open>
  \<^verbatim>\<open>VLiteral\<close> carries its string \<^verbatim>\<open>value\<close>; \<^verbatim>\<open>VExpressionContainer\<close>
  carries its \<^verbatim>\<open>expression\<close>, which may be \<^verbatim>\<open>null\<close>.
\<close>

datatype VLiteral = VLiteral jsstring

datatype VExpressionContainer = VExpressionContainer "expression option"

text \<open>
  The node given to the \<^verbatim>\<open>VAttribute\<close> handler. A plain attribute
  (\<^verbatim>\<open>directive === false\<close>) has \<^verbatim>\<open>key.rawName\<close> and a \<^verbatim>\<open>VLiteral\<close> value or
  \<^verbatim>\<open>null\<close>; a directive has \<^verbatim>\<open>key.name.name\<close> and a
  \<^verbatim>\<open>VExpressionContainer\<close> value or \<^verbatim>\<open>null\<close>.
\<close>

datatype attribute_node =
    PlainAttribute jsstring "VLiteral option"
  | Directive jsstring "VExpressionContainer option"

datatype reported_node =
    TextNode jsstring
  | LiteralNode VLiteral
  | ContainerNode VExpressionContainer

text \<open>
  A call of \<^verbatim>\<open>context.report\<close>: message \<^verbatim>\<open>unexpected\<close> on a node, or message
  \<^verbatim>\<open>unexpectedInAttr\<close> on a node with \<^verbatim>\<open>data.attr\<close>.
\<close>

datatype report =
    Unexpected reported_node
  | UnexpectedInAttr reported_node jsstring

datatype error = TypeError | RangeError

fun getStringValue :: "VExpressionContainer \<Rightarrow> jsstring option" where
  "getStringValue (VExpressionContainer expression) =
     (case expression of
        None \<Rightarrow> None
      | Some ex \<Rightarrow>
          (case ex of
             Literal v \<Rightarrow> (case v of StringValue s \<Rightarrow> Some s | _ \<Rightarrow> None)
           | _ \<Rightarrow> None))"

subsection \<open>Objects used as dictionaries\<close>

text \<open>
  \<^verbatim>\<open>names\<close> and \<^verbatim>\<open>cache\<close> are created by the object literal \<^verbatim>\<open>{}\<close>, so a
  property read \<^verbatim>\<open>obj[key]\<close> finds an own property first and then the properties
  every such object inherits from \<^verbatim>\<open>Object.prototype\<close>. Each inherited value is a
  function, or the prototype object itself for \<^verbatim>\<open>__proto__\<close>: truthy, not iterable
  and without a \<^verbatim>\<open>has\<close> method.
\<close>

definition objectPrototypeKeys :: "jsstring list" where
  "objectPrototypeKeys =
     [js ''constructor'', js ''hasOwnProperty'', js ''isPrototypeOf'',
      js ''propertyIsEnumerable'', js ''toLocaleString'', js ''toString'',
      js ''valueOf'', js ''__proto__'', js ''__defineGetter__'',
      js ''__defineSetter__'', js ''__lookupGetter__'', js ''__lookupSetter__'']"

datatype 'a property = Undefined | Own 'a | Inherited jsstring

definition getProperty :: "(jsstring \<rightharpoonup> 'a) \<Rightarrow> jsstring \<Rightarrow> 'a property" where
  "getProperty obj key =
     (case obj key of
        Some v \<Rightarrow> Own v
      | None \<Rightarrow> if key \<in> set objectPrototypeKeys then Inherited key else Undefined)"

text \<open>
  A \<^verbatim>\<open>Set<string>\<close> object: its identity (the number of sets the rule had created
  before it) and its elements in insertion order. The rule never changes a set after
  creating it. \<open>newSet\<close> is \<^verbatim>\<open>new Set(array)\<close>: the first occurrence of each element
  is kept.
\<close>

datatype SetObject = SetObject (ident: nat) (elements: "jsstring list")

definition newSet :: "jsstring list \<Rightarrow> jsstring list" where
  "newSet xs = rev (remdups (rev xs))"

text \<open>What \<^verbatim>\<open>getTargetAttrs\<close> can return: a set, or a value inherited by the cache object.\<close>

datatype jsvalue = SetValue SetObject | PrototypeValue jsstring

subsection \<open>State of one rule instance\<close>

text \<open>
  \<^verbatim>\<open>TargetAttrs\<close> as \<^verbatim>\<open>parseTargetAttrs\<close> builds it. A compiled tag pattern is
  represented by its \<^verbatim>\<open>test\<close> with \<^verbatim>\<open>lastIndex\<close> reset to 0, a predicate on the
  tag name. The sets of \<^verbatim>\<open>names\<close> and \<^verbatim>\<open>regexps\<close> are only ever spread, so they
  are kept as their element lists. \<^verbatim>\<open>names\<close> holds the own properties that
  \<^verbatim>\<open>parseTargetAttrs\<close> assigned; options with a key \<^verbatim>\<open>__proto__\<close>, which would
  replace the prototype of \<^verbatim>\<open>names\<close> instead, are not covered.
\<close>

type_synonym RegExp = "jsstring \<Rightarrow> bool"

record TargetAttrs =
  names :: "jsstring \<rightharpoonup> jsstring list"
  regexps :: "(RegExp \<times> jsstring list) list"
  cache :: "jsstring \<rightharpoonup> SetObject"

datatype ElementStack =
  ElementStack (upper: "ElementStack option") (name: jsstring) (attrs: jsvalue)

record state =
  attributes :: TargetAttrs
  allocated :: nat
  elementStack :: "ElementStack option"
  reports :: "report list"

text \<open>
  What the closure of \<^verbatim>\<open>create\<close> holds fixed: the options \<^verbatim>\<open>whitelist\<close> and
  \<^verbatim>\<open>directives\<close>, and the two functions of \<^verbatim>\<open>lib/utils/casing.js\<close>, which is not
  among the sources and is therefore a parameter. \<open>stackLimit\<close> is the number of
  frames left on the call stack when a handler runs; exceeding it is JavaScript's
  \<^verbatim>\<open>RangeError\<close>.
\<close>

record env =
  whitelist :: "jsstring list"
  directives :: "jsstring list"
  isKebabCase :: "jsstring \<Rightarrow> bool"
  pascalCase :: "jsstring \<Rightarrow> jsstring"
  stackLimit :: nat

subsection \<open>The resolver\<close>

text \<open>\<^verbatim>\<open>attributes.cache[tagName] = new Set(result)\<close>, which is also the value returned.\<close>

definition cacheStore :: "jsstring \<Rightarrow> jsstring list \<Rightarrow> state \<Rightarrow> jsvalue \<times> state" where
  "cacheStore tagName result st =
     (let s = SetObject (allocated st) (newSet result)
      in (SetValue s,
          st\<lparr>attributes := (attributes st)\<lparr>cache := (cache (attributes st))(tagName \<mapsto> s)\<rparr>,
             allocated := Suc (allocated st)\<rparr>))"

text \<open>The elements pushed by the loop over \<^verbatim>\<open>attributes.regexps\<close>.\<close>

definition regexpAttrs :: "TargetAttrs \<Rightarrow> jsstring \<Rightarrow> jsstring list" where
  "regexpAttrs a tagName = concat (map snd (filter (\<lambda>(re, xs). re tagName) (regexps a)))"

text \<open>
  \<^verbatim>\<open>if (attributes.names[tagName]) result.push(...attributes.names[tagName])\<close>:
  spreading an inherited value throws.
\<close>

definition nameAttrs :: "TargetAttrs \<Rightarrow> jsstring \<Rightarrow> error + jsstring list" where
  "nameAttrs a tagName =
     (case getProperty (names a) tagName of
        Undefined \<Rightarrow> Inr []
      | Own xs \<Rightarrow> Inr xs
      | Inherited k \<Rightarrow> Inl TypeError)"

text \<open>
  The first argument after the environment is the number of call-stack frames still
  available; the recursive call has one fewer.
\<close>

fun getTargetAttrs :: "env \<Rightarrow> nat \<Rightarrow> jsstring \<Rightarrow> state \<Rightarrow> error + (jsvalue \<times> state)" where
  "getTargetAttrs e 0 tagName st = Inl RangeError"
| "getTargetAttrs e (Suc depth) tagName st =
     (case getProperty (cache (attributes st)) tagName of
        Own s \<Rightarrow> Inr (SetValue s, st)
      | Inherited k \<Rightarrow> Inr (PrototypeValue k, st)
      | Undefined \<Rightarrow>
          (case nameAttrs (attributes st) tagName of
             Inl err \<Rightarrow> Inl err
           | Inr result1 \<Rightarrow>
               let result2 = result1 @ regexpAttrs (attributes st) tagName
               in if isKebabCase e tagName then
                    (case getTargetAttrs e depth (pascalCase e tagName) st of
                       Inl err \<Rightarrow> Inl err
                     | Inr (v, st') \<Rightarrow>
                         (case v of
                            SetValue s \<Rightarrow> Inr (cacheStore tagName (result2 @ elements s) st')
                          | PrototypeValue k \<Rightarrow> Inl TypeError))
                  else Inr (cacheStore tagName result2 st)))"

subsection \<open>The visitor handlers\<close>

definition addReport :: "report \<Rightarrow> state \<Rightarrow> state" where
  "addReport r st = st\<lparr>reports := reports st @ [r]\<rparr>"

definition VText :: "env \<Rightarrow> jsstring \<Rightarrow> state \<Rightarrow> error + state" where
  "VText e v st =
     (if getBareString (whitelist e) v \<noteq> [] then Inr (addReport (Unexpected (TextNode v)) st)
      else Inr st)"

definition VElement :: "env \<Rightarrow> jsstring \<Rightarrow> state \<Rightarrow> error + state" where
  "VElement e rawName st =
     (case getTargetAttrs e (stackLimit e) rawName st of
        Inl err \<Rightarrow> Inl err
      | Inr (v, st') \<Rightarrow>
          Inr (st'\<lparr>elementStack := Some (ElementStack (elementStack st) rawName v)\<rparr>))"

definition VElement_exit :: "state \<Rightarrow> error + state" where
  "VElement_exit st =
     (case elementStack st of
        None \<Rightarrow> Inl TypeError
      | Some frame \<Rightarrow> Inr (st\<lparr>elementStack := upper frame\<rparr>))"

text \<open>\<^verbatim>\<open>attrs.has(x)\<close>; a value inherited from \<^verbatim>\<open>Object.prototype\<close> has no such method.\<close>

definition has :: "jsvalue \<Rightarrow> jsstring \<Rightarrow> error + bool" where
  "has v x =
     (case v of
        SetValue s \<Rightarrow> Inr (x \<in> set (elements s))
      | PrototypeValue k \<Rightarrow> Inl TypeError)"

fun hasValue :: "attribute_node \<Rightarrow> bool" where
  "hasValue (PlainAttribute rawName v) = (v \<noteq> None)"
| "hasValue (Directive keyName v) = (v \<noteq> None)"

definition VAttribute :: "env \<Rightarrow> attribute_node \<Rightarrow> state \<Rightarrow> error + state" where
  "VAttribute e node st =
     (if \<not> hasValue node then Inr st
      else
        (case node of
           PlainAttribute rawName val \<Rightarrow>
             (case val of
                None \<Rightarrow> Inr st
              | Some (VLiteral v) \<Rightarrow>
                  (case elementStack st of
                     None \<Rightarrow> Inl TypeError
                   | Some frame \<Rightarrow>
                       (case has (attrs frame) rawName of
                          Inl err \<Rightarrow> Inl err
                        | Inr b \<Rightarrow>
                            if \<not> b then Inr st
                            else if getBareString (whitelist e) v \<noteq> [] then
                              Inr (addReport (UnexpectedInAttr (LiteralNode (VLiteral v)) rawName) st)
                            else Inr st)))
         | Directive keyName val \<Rightarrow>
             (case val of
                None \<Rightarrow> Inr st
              | Some container \<Rightarrow>
                  let directive = js ''v-'' @ keyName
                  in if directive \<notin> set (directives e) then Inr st
                     else
                       (case getStringValue container of
                          None \<Rightarrow> Inr st
                        | Some str \<Rightarrow>
                            if str \<noteq> [] \<and> getBareString (whitelist e) str \<noteq> [] then
                              Inr (addReport (UnexpectedInAttr (ContainerNode container) directive) st)
                            else Inr st))))"

subsection \<open>Traversal events\<close>

text \<open>
  The template visitor calls the handlers in document order. A run of the rule is the
  list of those calls; it stops at the first error, as the exception would.
\<close>

datatype event =
    EnterVElement jsstring
  | ExitVElement
  | VisitVText jsstring
  | VisitVAttribute attribute_node

fun dispatch :: "env \<Rightarrow> event \<Rightarrow> state \<Rightarrow> error + state" where
  "dispatch e (EnterVElement rawName) st = VElement e rawName st"
| "dispatch e ExitVElement st = VElement_exit st"
| "dispatch e (VisitVText v) st = VText e v st"
| "dispatch e (VisitVAttribute node) st = VAttribute e node st"

fun run :: "env \<Rightarrow> event list \<Rightarrow> state \<Rightarrow> error + state" where
  "run e [] st = Inr st"
| "run e (ev # evs) st =
     (case dispatch e ev st of Inl err \<Rightarrow> Inl err | Inr st' \<Rightarrow> run e evs st')"

subsection \<open>The default options\<close>

text \<open>
  \<^verbatim>\<open>DEFAULT_WHITELIST\<close> and \<^verbatim>\<open>DEFAULT_DIRECTIVES\<close> as the source lists them; the
  six entries before the last are U+00B7, U+2022, U+2010, U+2013, U+2014 and U+2212.
\<close>

definition DEFAULT_WHITELIST :: "jsstring list" where
  "DEFAULT_WHITELIST =
     [js ''('', js '')'', js '','', js ''.'', js ''&'', js ''+'', js ''-'', js ''='',
      js ''*'', js ''/'', js ''#'', js ''%'', js ''!'', js ''?'', js '':'', js ''['',
      js '']'', js ''{'', js ''}'', js ''<'', js ''>'',
      [183], [8226], [8208], [8211], [8212], [8722], js ''|'']"

definition DEFAULT_DIRECTIVES :: "jsstring list" where
  "DEFAULT_DIRECTIVES = [js ''v-text'']"

text \<open>
  \<^verbatim>\<open>parseTargetAttrs(DEFAULT_ATTRIBUTES)\<close>: the key \<^verbatim>\<open>/.+/\<close> becomes a pattern, which
  matches a name holding at least one code unit other than a line terminator; the keys
  \<^verbatim>\<open>input\<close> and \<^verbatim>\<open>img\<close> become names; the cache starts empty.
\<close>

definition anyName :: RegExp where
  "anyName s \<longleftrightarrow> (\<exists>c\<in>set s. c \<notin> set [10, 13, 8232, 8233])"

definition titleTargets :: "jsstring list" where
  "titleTargets =
     [js ''title'', js ''aria-label'', js ''aria-placeholder'',
      js ''aria-roledescription'', js ''aria-valuetext'']"

definition defaultAttributes :: TargetAttrs where
  "defaultAttributes =
     \<lparr>names = [js ''input'' \<mapsto> [js ''placeholder''], js ''img'' \<mapsto> [js ''alt'']],
      regexps = [(anyName, titleTargets)],
      cache = Map.empty\<rparr>"

text \<open>The state in which \<^verbatim>\<open>create\<close> leaves a new rule instance.\<close>

definition initialState :: "TargetAttrs \<Rightarrow> state" where
  "initialState a = \<lparr>attributes = a, allocated = 0, elementStack = None, reports = []\<rparr>"

text \<open>
  Modelled from the spec: \<^verbatim>\<open>casing.isKebabCase\<close> and \<^verbatim>\<open>casing.pascalCase\<close>
  (\<^verbatim>\<open>lib/utils/casing.js\<close>) are not among the sources. The spec calls a name
  kebab-case when it is "written in a lowercase hyphen-delimited convention" and maps
  it to "the equivalent PascalCase form". The two functions below follow those words
  and add no condition of their own: a name is kebab-case when it is made of lowercase
  letters, digits and hyphens; its Pascal form drops each hyphen and capitalises the
  first code unit and every code unit that followed a hyphen, where that is a lowercase
  letter. They build the concrete environment of the examples; the general theorems
  take the two functions as parameters.
\<close>

definition isLower :: "nat \<Rightarrow> bool" where
  "isLower c \<longleftrightarrow> 97 \<le> c \<and> c \<le> 122"

definition isKebabCase_spec :: "jsstring \<Rightarrow> bool" where
  "isKebabCase_spec s = list_all (\<lambda>d. isLower d \<or> (48 \<le> d \<and> d \<le> 57) \<or> d = 45) s"

fun capitalizeParts :: "bool \<Rightarrow> jsstring \<Rightarrow> jsstring" where
  "capitalizeParts up [] = []"
| "capitalizeParts up (c # cs) =
     (if c = 45 then capitalizeParts True cs
      else (if up \<and> isLower c then c - 32 else c) # capitalizeParts False cs)"

definition pascalCase_spec :: "jsstring \<Rightarrow> jsstring" where
  "pascalCase_spec s = capitalizeParts True s"

definition defaultEnv :: env where
  "defaultEnv =
     \<lparr>whitelist = DEFAULT_WHITELIST, directives = DEFAULT_DIRECTIVES,
      isKebabCase = isKebabCase_spec, pascalCase = pascalCase_spec, stackLimit = 8\<rparr>"

subsection \<open>Example inputs\<close>

text \<open>The spec's whitelist \<^verbatim>\<open>( ) .\<close> in place of the default one.\<close>

definition parenEnv :: env where
  "parenEnv = defaultEnv\<lparr>whitelist := [js ''('', js '')'', js ''.'']\<rparr>"


text \<open>
  The events inside the \<^verbatim>\<open>div\<close> of
  \<^verbatim>\<open><div title="Ok"><span title="Hi"></span></div>\<close>, and the state of a rule
  instance with the default options after entering the \<^verbatim>\<open>div\<close> and handling them.
\<close>

definition nestedEvents :: "event list" where
  "nestedEvents =
     [VisitVAttribute (PlainAttribute (js ''title'') (Some (VLiteral (js ''Ok'')))),
      EnterVElement (js ''span''),
      VisitVAttribute (PlainAttribute (js ''title'') (Some (VLiteral (js ''Hi'')))),
      ExitVElement]"

definition insideDiv :: state where
  "insideDiv =
     \<lparr>attributes = defaultAttributes\<lparr>cache :=
        [js ''Div'' \<mapsto> SetObject 0 titleTargets, js ''div'' \<mapsto> SetObject 1 titleTargets,
         js ''Span'' \<mapsto> SetObject 2 titleTargets, js ''span'' \<mapsto> SetObject 3 titleTargets]\<rparr>,
      allocated = 4,
      elementStack = Some (ElementStack None (js ''div'') (SetValue (SetObject 1 titleTargets))),
      reports = [UnexpectedInAttr (LiteralNode (VLiteral (js ''Ok''))) (js ''title''),
                 UnexpectedInAttr (LiteralNode (VLiteral (js ''Hi''))) (js ''title'')]\<rparr>"

subsection \<open>Notions used to state the properties\<close>

text \<open>
  A whitelist entry of at most one code point: empty, one code unit, or one surrogate
  pair. A string is well formed when it has no surrogate outside a pair.
\<close>

definition atMostOneCodePoint :: "jsstring \<Rightarrow> bool" where
  "atMostOneCodePoint w \<longleftrightarrow> length w \<le> codePointLength w"

fun wellFormed :: "jsstring \<Rightarrow> bool" where
  "wellFormed [] = True"
| "wellFormed [u] = (\<not> isHighSurrogate u \<and> \<not> isLowSurrogate u)"
| "wellFormed (u # v # s) =
     (if isHighSurrogate u \<and> isLowSurrogate v then wellFormed s
      else \<not> isHighSurrogate u \<and> \<not> isLowSurrogate u \<and> wellFormed (v # s))"

text \<open>
  The pattern removes the code point \<open>cp\<close> when its first alternative that matches
  \<open>cp\<close> is not empty. A string is settled when the pattern removes none of its code
  points.
\<close>

definition removes :: "jsstring list \<Rightarrow> jsstring \<Rightarrow> bool" where
  "removes re cp \<longleftrightarrow> (case matchAt re cp of None \<Rightarrow> False | Some w \<Rightarrow> w \<noteq> [])"

fun settled :: "jsstring list \<Rightarrow> jsstring \<Rightarrow> bool" where
  "settled re [] = True"
| "settled re [u] = (\<not> removes re [u])"
| "settled re (u # v # s) =
     (if isHighSurrogate u \<and> isLowSurrogate v then \<not> removes re [u, v] \<and> settled re s
      else \<not> removes re [u] \<and> settled re (v # s))"

text \<open>
  \<open>nesting evs d\<close> is the element depth after the events \<open>evs\<close>, started at depth
  \<open>d\<close>, or \<open>None\<close> when an exit has no enter before it. A list of events is well nested
  when every enter has its exit and the other way round, as in the events of a whole
  subtree.
\<close>

fun nesting :: "event list \<Rightarrow> nat \<Rightarrow> nat option" where
  "nesting [] d = Some d"
| "nesting (EnterVElement rawName # evs) d = nesting evs (Suc d)"
| "nesting (ExitVElement # evs) d = (case d of 0 \<Rightarrow> None | Suc d' \<Rightarrow> nesting evs d')"
| "nesting (VisitVText v # evs) d = nesting evs d"
| "nesting (VisitVAttribute node # evs) d = nesting evs d"

definition wellNested :: "event list \<Rightarrow> bool" where
  "wellNested evs \<longleftrightarrow> nesting evs 0 = Some 0"

text \<open>The stack left after following \<^verbatim>\<open>upper\<close> \<open>d\<close> times, if it is that deep.\<close>

fun popN :: "nat \<Rightarrow> ElementStack option \<Rightarrow> ElementStack option option" where
  "popN 0 stack = Some stack"
| "popN (Suc d) stack = (case stack of None \<Rightarrow> None | Some frame \<Rightarrow> popN d (upper frame))"

text \<open>
  The resolution algorithm in the spec's words, without the cache: an attribute is a
  target of a tag name when the exact-name entry lists it, when a pattern entry that
  matches the name lists it, or when the name is kebab-case and the attribute is a
  target of its Pascal form.
\<close>

inductive resolves :: "env \<Rightarrow> TargetAttrs \<Rightarrow> jsstring \<Rightarrow> jsstring \<Rightarrow> bool"
  for e :: env and a :: TargetAttrs where
  byName: "names a tagName = Some xs \<Longrightarrow> x \<in> set xs \<Longrightarrow> resolves e a tagName x"
| byPattern: "(re, xs) \<in> set (regexps a) \<Longrightarrow> re tagName \<Longrightarrow> x \<in> set xs \<Longrightarrow> resolves e a tagName x"
| byAlias: "isKebabCase e tagName \<Longrightarrow> resolves e a (pascalCase e tagName) x \<Longrightarrow> resolves e a tagName x"

text \<open>
  The cache is sound when every set it holds has exactly the targets of the tag name
  it is stored under.
\<close>

definition cacheSound :: "env \<Rightarrow> state \<Rightarrow> bool" where
  "cacheSound e st \<longleftrightarrow>
     (\<forall>tagName s. cache (attributes st) tagName = Some s \<longrightarrow>
        set (elements s) = {x. resolves e (attributes st) tagName x})"

section \<open>Properties\<close>

subsection \<open>Trimming and the whitelist pattern\<close>

declare replaceAll.simps [simp del]

lemmas strip_defs =
  getBareString_def trim_def whitelistRe_def isWhiteSpace_def replaceAll.simps matchesLiteral_def
  isHighSurrogate_def isLowSurrogate_def codePointLength_def startsWithPair_def

lemma trim_idem: "trim (trim s) = trim s"
proof -
  define a where "a = dropWhile isWhiteSpace s"
  define b where "b = dropWhile isWhiteSpace (rev a)"
  have r: "trim s = rev b" by (simp add: trim_def a_def b_def)
  have "trim (rev b) = rev b"
  proof (cases "b = []")
    case True
    then show ?thesis by (simp add: trim_def)
  next
    case False
    have hb: "\<not> isWhiteSpace (hd b)" using False unfolding b_def by (rule hd_dropWhile)
    have an: "a \<noteq> []" using False b_def by auto
    then have ha: "\<not> isWhiteSpace (hd a)" unfolding a_def by (rule hd_dropWhile)
    have "rev a = takeWhile isWhiteSpace (rev a) @ b" by (simp add: b_def)
    then have "last (rev a) = last b" using False by (metis last_appendR)
    then have lb: "\<not> isWhiteSpace (last b)" using ha an by (simp add: last_rev)
    have 1: "dropWhile isWhiteSpace (rev b) = rev b"
      using lb False by (simp add: dropWhile_eq_self_iff hd_rev)
    have 2: "dropWhile isWhiteSpace b = b"
      using hb False by (simp add: dropWhile_eq_self_iff)
    show ?thesis by (simp add: trim_def 1 2)
  qed
  then show ?thesis by (simp add: r)
qed

lemma set_trim: "set (trim s) \<subseteq> set s"
proof -
  have "set (trim s) \<subseteq> set (dropWhile isWhiteSpace s)"
    unfolding trim_def by (auto dest: set_dropWhileD)
  then show ?thesis by (auto dest: set_dropWhileD)
qed

lemma trim_Nil: "trim [] = []"
  by (simp add: trim_def)

lemma trim_whitespace:
  assumes "\<forall>c\<in>set s. isWhiteSpace c"
  shows "trim s = []"
proof -
  have d: "dropWhile isWhiteSpace s = []" using assms by simp
  show ?thesis unfolding trim_def d by simp
qed


lemma getBareString_whitespace: "\<forall>c\<in>set s. isWhiteSpace c \<Longrightarrow> getBareString wl s = []"
  by (simp add: getBareString_def trim_whitespace trim_Nil replaceAll.simps)

lemma not_both_surrogates: "\<not> (isHighSurrogate u \<and> isLowSurrogate u)"
  by (simp add: isHighSurrogate_def isLowSurrogate_def)

lemma atMostOneCodePoint_cases:
  assumes "atMostOneCodePoint w"
  shows "w = [] \<or> (\<exists>u. w = [u]) \<or> (\<exists>h l. w = [h, l] \<and> isHighSurrogate h \<and> isLowSurrogate l)"
proof (cases w)
  case Nil
  then show ?thesis by simp
next
  case (Cons a as)
  show ?thesis
  proof (cases as)
    case Nil
    then show ?thesis using Cons by simp
  next
    case (Cons b bs)
    then show ?thesis using assms \<open>w = a # as\<close>
      by (cases bs) (auto simp: atMostOneCodePoint_def codePointLength_def startsWithPair_def split: if_splits)
  qed
qed

text \<open>
  At a code point boundary, a literal of at most one code point matches exactly when it
  is empty or is the code point there.
\<close>

lemma matchesLiteral_single:
  assumes "atMostOneCodePoint w"
  shows "matchesLiteral w [u] \<longleftrightarrow> w = [] \<or> w = [u]"
  using atMostOneCodePoint_cases[OF assms]
  by (auto simp: matchesLiteral_def)

lemma matchesLiteral_pair:
  assumes "atMostOneCodePoint w" and "isHighSurrogate u" and "isLowSurrogate v"
  shows "matchesLiteral w (u # v # s) \<longleftrightarrow> w = [] \<or> w = [u, v]"
  using atMostOneCodePoint_cases[OF assms(1)] assms(2,3) not_both_surrogates[of v]
  by (auto simp: matchesLiteral_def)

lemma matchesLiteral_unit:
  assumes "atMostOneCodePoint w" and "\<not> (isHighSurrogate u \<and> isLowSurrogate v)"
  shows "matchesLiteral w (u # v # s) \<longleftrightarrow> w = [] \<or> w = [u]"
  using atMostOneCodePoint_cases[OF assms(1)] assms(2)
  by (auto simp: matchesLiteral_def)

lemma matchAt_pair:
  assumes "\<forall>w\<in>set re. atMostOneCodePoint w" and "isHighSurrogate u" and "isLowSurrogate v"
  shows "matchAt re (u # v # s) = matchAt re [u, v]"
  using assms(1)
proof (induction re)
  case Nil
  show ?case by simp
next
  case (Cons w ws)
  then have "matchesLiteral w (u # v # s) \<longleftrightarrow> matchesLiteral w [u, v]"
    using matchesLiteral_pair[of w u v] assms(2,3) by simp
  then show ?case using Cons by simp
qed

lemma matchAt_unit:
  assumes "\<forall>w\<in>set re. atMostOneCodePoint w" and "\<not> (isHighSurrogate u \<and> isLowSurrogate v)"
  shows "matchAt re (u # v # s) = matchAt re [u]"
  using assms(1)
proof (induction re)
  case Nil
  show ?case by simp
next
  case (Cons w ws)
  then have "matchesLiteral w (u # v # s) \<longleftrightarrow> matchesLiteral w [u]"
    using matchesLiteral_unit[of w u v] matchesLiteral_single[of w u] assms(2) by simp
  then show ?case using Cons by simp
qed

lemma matchAt_found:
  assumes "\<forall>w\<in>set re. atMostOneCodePoint w" and "matchAt re cp = Some w"
    and "cp = [u] \<or> (cp = [u, v] \<and> isHighSurrogate u \<and> isLowSurrogate v)"
  shows "w = [] \<or> w = cp"
  using assms(1,2)
proof (induction re)
  case Nil
  then show ?case by simp
next
  case (Cons x xs)
  show ?case
  proof (cases "matchesLiteral x cp")
    case True
    then have "w = x" using Cons.prems(2) by simp
    moreover have "atMostOneCodePoint x" using Cons.prems(1) by simp
    ultimately show ?thesis
      using True assms(3) matchesLiteral_single[of x u] matchesLiteral_pair[of x u v "[]"] by auto
  next
    case False
    then show ?thesis using Cons by simp
  qed
qed

lemma replaceAll_single:
  assumes "\<forall>w\<in>set re. atMostOneCodePoint w"
  shows "replaceAll re [u] = (if removes re [u] then [] else [u])"
proof -
  have n: "codePointLength [u] = 1" by (simp add: codePointLength_def startsWithPair_def)
  show ?thesis
  proof (cases "matchAt re [u]")
    case None
    then show ?thesis by (simp add: removes_def n replaceAll.simps)
  next
    case (Some w)
    then have "w = [] \<or> w = [u]" using matchAt_found[OF assms Some, of u] by simp
    then show ?thesis using Some by (auto simp: removes_def n replaceAll.simps)
  qed
qed

lemma replaceAll_pair:
  assumes "\<forall>w\<in>set re. atMostOneCodePoint w" and "isHighSurrogate u" and "isLowSurrogate v"
  shows "replaceAll re (u # v # s)
         = (if removes re [u, v] then replaceAll re s else u # v # replaceAll re s)"
proof -
  have n: "codePointLength (u # v # s) = 2"
    using assms(2,3) by (simp add: codePointLength_def startsWithPair_def)
  note m = matchAt_pair[OF assms, of s]
  show ?thesis
  proof (cases "matchAt re [u, v]")
    case None
    then show ?thesis
      unfolding replaceAll.simps(2)[of re u "v # s"] m n by (simp add: removes_def)
  next
    case (Some w)
    then have "w = [] \<or> w = [u, v]"
      using matchAt_found[OF assms(1) Some, of u v] assms(2,3) by simp
    then show ?thesis using Some
      unfolding replaceAll.simps(2)[of re u "v # s"] m n by (auto simp: removes_def)
  qed
qed

lemma replaceAll_unit:
  assumes "\<forall>w\<in>set re. atMostOneCodePoint w" and "\<not> (isHighSurrogate u \<and> isLowSurrogate v)"
  shows "replaceAll re (u # v # s)
         = (if removes re [u] then replaceAll re (v # s) else u # replaceAll re (v # s))"
proof -
  have n: "codePointLength (u # v # s) = 1"
    using assms(2) by (simp add: codePointLength_def startsWithPair_def)
  note m = matchAt_unit[OF assms, of s]
  show ?thesis
  proof (cases "matchAt re [u]")
    case None
    then show ?thesis
      unfolding replaceAll.simps(2)[of re u "v # s"] m n
      by (simp add: removes_def del: replaceAll.simps)
  next
    case (Some w)
    then have "w = [] \<or> w = [u]" using matchAt_found[OF assms(1) Some, of u] by simp
    then show ?thesis using Some
      unfolding replaceAll.simps(2)[of re u "v # s"] m n
      by (auto simp: removes_def simp del: replaceAll.simps)
  qed
qed

lemma settled_fixed:
  "\<forall>w\<in>set re. atMostOneCodePoint w \<Longrightarrow> settled re y \<Longrightarrow> replaceAll re y = y"
proof (induction re y rule: settled.induct)
  case (1 re)
  show ?case by (simp add: replaceAll.simps)
next
  case (2 re u)
  then show ?case using replaceAll_single[of re u] by simp
next
  case (3 re u v s)
  show ?case
  proof (cases "isHighSurrogate u \<and> isLowSurrogate v")
    case True
    then show ?thesis using 3 replaceAll_pair[of re u v s] by simp
  next
    case False
    then show ?thesis using 3 replaceAll_unit[of re u v s] by simp
  qed
qed

lemma settled_Cons:
  "\<not> isHighSurrogate c \<Longrightarrow> settled re (c # cs) \<longleftrightarrow> \<not> removes re [c] \<and> settled re cs"
  by (cases cs) simp_all

lemma settled_Cons_low:
  "\<not> isLowSurrogate (hd cs) \<or> cs = [] \<Longrightarrow> settled re (c # cs) \<longleftrightarrow> \<not> removes re [c] \<and> settled re cs"
  by (cases cs) auto

lemma pair_kept:
  assumes "\<forall>w\<in>set re. length w \<le> 1" and "isHighSurrogate u" and "isLowSurrogate v"
  shows "\<not> removes re [u, v]"
proof -
  have "matchAt re [u, v] = None \<or> matchAt re [u, v] = Some []"
    using assms(1)
  proof (induction re)
    case Nil
    show ?case by simp
  next
    case (Cons w ws)
    then have "length w \<le> 1" by simp
    then have "w = [] \<or> (\<exists>a. w = [a])" by (cases w) auto
    then show ?case using Cons assms(2,3) by (auto simp: matchesLiteral_def)
  qed
  then show ?thesis by (auto simp: removes_def)
qed

lemma short_atMostOneCodePoint: "length w \<le> 1 \<Longrightarrow> atMostOneCodePoint w"
  by (simp add: atMostOneCodePoint_def codePointLength_def)

lemma settled_replaceAll_units:
  assumes "\<forall>w\<in>set re. length w \<le> 1"
  shows "settled re (replaceAll re x)"
proof -
  have one: "\<forall>w\<in>set re. atMostOneCodePoint w"
    using assms short_atMostOneCodePoint by blast
  show ?thesis
  proof (induction x rule: wellFormed.induct)
    case 1
    show ?case by (simp add: replaceAll.simps)
  next
    case (2 u)
    show ?case by (simp add: replaceAll_single[OF one])
  next
    case (3 u v s)
    show ?case
    proof (cases "isHighSurrogate u \<and> isLowSurrogate v")
      case True
      then have "replaceAll re (u # v # s) = u # v # replaceAll re s"
        using replaceAll_pair[OF one, of u v s] pair_kept[OF assms, of u v] by simp
      then show ?thesis using True 3 pair_kept[OF assms, of u v] by simp
    next
      case False
      note r = replaceAll_unit[OF one False, of s]
      show ?thesis
      proof (cases "removes re [u]")
        case True
        then show ?thesis using r 3 False by simp
      next
        case keep: False
        define t where "t = replaceAll re (v # s)"
        have st: "settled re t" using 3 False by (simp add: t_def)
        have "settled re (u # t)"
        proof (cases t)
          case Nil
          then show ?thesis using keep by simp
        next
          case (Cons a as)
          show ?thesis
          proof (cases "isHighSurrogate u \<and> isLowSurrogate a")
            case True
            then have "\<not> isHighSurrogate a" using not_both_surrogates[of a] by blast
            then have "settled re as" using st Cons settled_Cons[of a re as] by simp
            then show ?thesis using Cons True pair_kept[OF assms, of u a] by simp
          next
            case False
            then show ?thesis using Cons keep st by auto
          qed
        qed
        then show ?thesis using r keep by (simp add: t_def)
      qed
    qed
  qed
qed

lemma wellFormed_Cons:
  "\<not> isHighSurrogate c \<Longrightarrow> wellFormed (c # cs) \<longleftrightarrow> \<not> isLowSurrogate c \<and> wellFormed cs"
  by (cases cs) simp_all

lemma wellFormed_pair:
  "isHighSurrogate u \<Longrightarrow> isLowSurrogate v \<Longrightarrow> wellFormed (u # v # s) \<longleftrightarrow> wellFormed s"
  by simp

lemma settled_replaceAll_wellFormed:
  assumes "\<forall>w\<in>set re. atMostOneCodePoint w"
  shows "wellFormed x \<Longrightarrow> settled re (replaceAll re x) \<and> wellFormed (replaceAll re x)"
proof (induction x rule: wellFormed.induct)
  case 1
  show ?case by (simp add: replaceAll.simps)
next
  case (2 u)
  then show ?case by (simp add: replaceAll_single[OF assms])
next
  case (3 u v s)
  show ?case
  proof (cases "isHighSurrogate u \<and> isLowSurrogate v")
    case True
    then show ?thesis using 3 replaceAll_pair[OF assms, of u v s] by simp
  next
    case False
    then have u: "\<not> isHighSurrogate u" "\<not> isLowSurrogate u" and wf: "wellFormed (v # s)"
      using 3(3) by (auto split: if_splits)
    have ih: "settled re (replaceAll re (v # s)) \<and> wellFormed (replaceAll re (v # s))"
      using 3(2)[OF False] wf by simp
    show ?thesis
      using ih u replaceAll_unit[OF assms False, of s]
      by (simp add: settled_Cons wellFormed_Cons del: replaceAll.simps)
  qed
qed

lemma whiteSpace_not_surrogate:
  "isWhiteSpace c \<Longrightarrow> \<not> isHighSurrogate c \<and> \<not> isLowSurrogate c"
  by (auto simp: isWhiteSpace_def isHighSurrogate_def isLowSurrogate_def)

text \<open>What \<^verbatim>\<open>trim\<close> cuts off is white space on both sides.\<close>

lemma trim_split:
  "\<exists>front rear. s = front @ trim s @ rear
      \<and> (\<forall>c\<in>set front. isWhiteSpace c) \<and> (\<forall>c\<in>set rear. isWhiteSpace c)"
proof -
  define a where "a = dropWhile isWhiteSpace s"
  have 1: "s = takeWhile isWhiteSpace s @ a" by (simp add: a_def)
  have "rev a = takeWhile isWhiteSpace (rev a) @ dropWhile isWhiteSpace (rev a)" by simp
  then have "a = rev (dropWhile isWhiteSpace (rev a)) @ rev (takeWhile isWhiteSpace (rev a))"
    by (metis rev_append rev_rev_ident)
  then have 2: "a = trim s @ rev (takeWhile isWhiteSpace (rev a))"
    unfolding trim_def a_def .
  have "s = takeWhile isWhiteSpace s @ trim s @ rev (takeWhile isWhiteSpace (rev a))"
    using 1 2 by simp
  moreover have "\<forall>c\<in>set (takeWhile isWhiteSpace s). isWhiteSpace c"
    by (auto dest: set_takeWhileD)
  moreover have "\<forall>c\<in>set (rev (takeWhile isWhiteSpace (rev a))). isWhiteSpace c"
    by (auto dest: set_takeWhileD)
  ultimately show ?thesis by blast
qed

lemma settled_drop_front:
  "\<forall>c\<in>set front. \<not> isHighSurrogate c \<Longrightarrow> settled re (front @ y) \<Longrightarrow> settled re y"
  by (induction front) (auto simp: settled_Cons)

lemma settled_snoc:
  "\<not> isLowSurrogate c \<Longrightarrow> settled re (xs @ [c]) \<Longrightarrow> settled re xs"
proof (induction re xs rule: settled.induct)
  case (1 re)
  show ?case by simp
next
  case (2 re u)
  then show ?case by (auto split: if_splits)
next
  case (3 re u v s)
  then show ?case by (auto split: if_splits)
qed

lemma settled_drop_back:
  "\<forall>c\<in>set rear. \<not> isLowSurrogate c \<Longrightarrow> settled re (y @ rear) \<Longrightarrow> settled re y"
proof (induction rear rule: rev_induct)
  case Nil
  then show ?case by simp
next
  case (snoc c cs)
  then have "settled re ((y @ cs) @ [c])" by simp
  then have "settled re (y @ cs)" using settled_snoc[of c re "y @ cs"] snoc.prems(1) by simp
  then show ?case using snoc by simp
qed

lemma settled_trim:
  assumes "settled re y"
  shows "settled re (trim y)"
proof -
  obtain front rear where y: "y = front @ trim y @ rear"
    and f: "\<forall>c\<in>set front. isWhiteSpace c" and b: "\<forall>c\<in>set rear. isWhiteSpace c"
    using trim_split[of y] by blast
  have "settled re (front @ (trim y @ rear))" using assms y by simp
  then have "settled re (trim y @ rear)"
    using settled_drop_front[of front re "trim y @ rear"] f whiteSpace_not_surrogate by blast
  then show ?thesis
    using settled_drop_back[of rear re "trim y"] b whiteSpace_not_surrogate by blast
qed

lemma wellFormed_drop_front:
  "\<forall>c\<in>set front. \<not> isHighSurrogate c \<Longrightarrow> wellFormed (front @ y) \<Longrightarrow> wellFormed y"
  by (induction front) (auto simp: wellFormed_Cons)

lemma wellFormed_snoc:
  "\<not> isLowSurrogate c \<Longrightarrow> wellFormed (xs @ [c]) \<Longrightarrow> wellFormed xs"
proof (induction xs rule: wellFormed.induct)
  case 1
  show ?case by simp
next
  case (2 u)
  then show ?case by (auto split: if_splits)
next
  case (3 u v s)
  then show ?case by (auto split: if_splits)
qed

lemma wellFormed_drop_back:
  "\<forall>c\<in>set rear. \<not> isLowSurrogate c \<Longrightarrow> wellFormed (y @ rear) \<Longrightarrow> wellFormed y"
proof (induction rear rule: rev_induct)
  case Nil
  then show ?case by simp
next
  case (snoc c cs)
  then have "wellFormed ((y @ cs) @ [c])" by simp
  then have "wellFormed (y @ cs)" using wellFormed_snoc[of c "y @ cs"] snoc.prems(1) by simp
  then show ?case using snoc by simp
qed

lemma wellFormed_trim:
  assumes "wellFormed y"
  shows "wellFormed (trim y)"
proof -
  obtain front rear where y: "y = front @ trim y @ rear"
    and f: "\<forall>c\<in>set front. isWhiteSpace c" and b: "\<forall>c\<in>set rear. isWhiteSpace c"
    using trim_split[of y] by blast
  have "wellFormed (front @ (trim y @ rear))" using assms y by simp
  then have "wellFormed (trim y @ rear)"
    using wellFormed_drop_front[of front "trim y @ rear"] f whiteSpace_not_surrogate by blast
  then show ?thesis
    using wellFormed_drop_back[of rear "trim y"] b whiteSpace_not_surrogate by blast
qed

lemma whitelistRe_entries: "P [] \<Longrightarrow> \<forall>w\<in>set wl. P w \<Longrightarrow> \<forall>w\<in>set (whitelistRe wl). P w"
  by (simp add: whitelistRe_def)

text \<open>
  C2: a text node is reported as bare text exactly when \<^verbatim>\<open>getBareString\<close> of its
  value (trim, remove every match of the whitelist pattern, trim again) is not empty.
  With the whitelist \<^verbatim>\<open>( ) .\<close> the text \<^verbatim>\<open>(hello).\<close> has the bare string
  \<^verbatim>\<open>hello\<close> and gives exactly one report, \<^verbatim>\<open>().\<close> gives none, and a text made of
  white space only (the empty text included) never gives one.
\<close>

theorem VText_reports_bare_text:
  "(\<exists>st'. VText e v st = Inr st'
      \<and> reports st' = reports st @ (if getBareString (whitelist e) v \<noteq> [] then [Unexpected (TextNode v)] else []))
   \<and> (whitelist e = [js ''('', js '')'', js ''.''] \<longrightarrow>
        getBareString (whitelist e) (js ''(hello).'') = js ''hello''
        \<and> VText e (js ''(hello).'') st = Inr (st\<lparr>reports := reports st @ [Unexpected (TextNode (js ''(hello).''))]\<rparr>)
        \<and> VText e (js ''().'') st = Inr st)
   \<and> ((\<forall>c\<in>set v. isWhiteSpace c) \<longrightarrow> VText e v st = Inr st)"
proof (intro conjI impI)
  show "\<exists>st'. VText e v st = Inr st'
      \<and> reports st' = reports st @ (if getBareString (whitelist e) v \<noteq> [] then [Unexpected (TextNode v)] else [])"
    by (simp add: VText_def addReport_def)
next
  assume w: "whitelist e = [js ''('', js '')'', js ''.'']"
  show h: "getBareString (whitelist e) (js ''(hello).'') = js ''hello''"
    unfolding w by (simp add: strip_defs)
  show "VText e (js ''(hello).'') st = Inr (st\<lparr>reports := reports st @ [Unexpected (TextNode (js ''(hello).''))]\<rparr>)"
    unfolding VText_def h by (simp add: addReport_def)
  have "getBareString (whitelist e) (js ''().'') = []"
    unfolding w by (simp add: strip_defs)
  then show "VText e (js ''().'') st = Inr st"
    by (simp add: VText_def)
next
  assume "\<forall>c\<in>set v. isWhiteSpace c"
  then show "VText e v st = Inr st"
    by (simp add: VText_def getBareString_whitespace)
qed

theorem VText_reports_bare_text_witness:
  "whitelist parenEnv = [js ''('', js '')'', js ''.'']
   \<and> list_all isWhiteSpace [32, 9, 10]
   \<and> VText parenEnv (js ''(hello).'') (initialState defaultAttributes)
       = Inr ((initialState defaultAttributes)\<lparr>reports := [Unexpected (TextNode (js ''(hello).''))]\<rparr>)
   \<and> VText parenEnv (js ''().'') (initialState defaultAttributes) = Inr (initialState defaultAttributes)
   \<and> VText parenEnv [32, 9, 10] (initialState defaultAttributes) = Inr (initialState defaultAttributes)"
  using VText_reports_bare_text [of parenEnv "[32, 9, 10]" "initialState defaultAttributes"]
  by (simp add: parenEnv_def isWhiteSpace_def initialState_def)

text \<open>
  C3, as the claim states it, fails in two ways. A whitelist entry of two code points
  can be put together by the removal of a match: with the whitelist \<^verbatim>\<open>ab\<close>,
  stripping \<^verbatim>\<open>aabb\<close> leaves \<^verbatim>\<open>ab\<close>, and stripping that leaves nothing. And
  the removal of a match can leave a lone high surrogate next to a lone low one, which
  then are one code point: with the whitelist \<^verbatim>\<open>x\<close>, U+10000, stripping
  U+D800 \<^verbatim>\<open>x\<close> U+DC00 leaves the pair U+D800 U+DC00, which is U+10000, and stripping
  that leaves nothing.
\<close>

theorem getBareString_not_idempotent:
  "getBareString [js ''ab''] (getBareString [js ''ab''] (js ''aabb'')) \<noteq> getBareString [js ''ab''] (js ''aabb'')
   \<and> getBareString [js ''x'', [55296, 56320]] [55296, 120, 56320] = [55296, 56320]
   \<and> getBareString [js ''x'', [55296, 56320]] [55296, 56320] = []"
  by (simp add: strip_defs)

text \<open>
  C3, amended: when every whitelist entry is at most one code point long, and either
  the string has no surrogate outside a pair or no entry is longer than one code unit
  (as in the default whitelist), the output of \<^verbatim>\<open>getBareString\<close> holds no further
  match of the pattern and \<^verbatim>\<open>getBareString\<close> is idempotent.
\<close>

theorem getBareString_idempotent:
  assumes "\<forall>w\<in>set wl. atMostOneCodePoint w"
    and "wellFormed s \<or> (\<forall>w\<in>set wl. length w \<le> 1)"
  shows "replaceAll (whitelistRe wl) (getBareString wl s) = getBareString wl s
       \<and> getBareString wl (getBareString wl s) = getBareString wl s"
proof -
  let ?re = "whitelistRe wl"
  have one: "\<forall>w\<in>set ?re. atMostOneCodePoint w"
    using assms(1) by (intro whitelistRe_entries) (simp_all add: atMostOneCodePoint_def)
  have "settled ?re (replaceAll ?re (trim s))"
  proof (cases "wellFormed s")
    case True
    then have "wellFormed (trim s)" by (rule wellFormed_trim)
    then show ?thesis using settled_replaceAll_wellFormed[OF one] by blast
  next
    case False
    then have "\<forall>w\<in>set wl. length w \<le> 1" using assms(2) by blast
    then have "\<forall>w\<in>set ?re. length w \<le> 1" by (intro whitelistRe_entries) simp_all
    then show ?thesis by (rule settled_replaceAll_units)
  qed
  then have st: "settled ?re (getBareString wl s)"
    unfolding getBareString_def by (rule settled_trim)
  have 1: "replaceAll ?re (getBareString wl s) = getBareString wl s"
    using settled_fixed[OF one st] .
  have t: "trim (getBareString wl s) = getBareString wl s"
    unfolding getBareString_def by (rule trim_idem)
  have "getBareString wl (getBareString wl s) = trim (replaceAll ?re (trim (getBareString wl s)))"
    by (simp add: getBareString_def)
  also have "\<dots> = getBareString wl s" by (simp add: t 1)
  finally show ?thesis using 1 by simp
qed

theorem getBareString_idempotent_witness:
  "list_all atMostOneCodePoint [js ''('', js '')'', js ''.'', [55296, 56320]]
   \<and> wellFormed ([55296, 56320] @ js ''(hello).'')
   \<and> list_all (\<lambda>w. length w \<le> 1) DEFAULT_WHITELIST
   \<and> getBareString [js ''('', js '')'', js ''.'', [55296, 56320]] ([55296, 56320] @ js ''(hello).'')
       = js ''hello''
   \<and> getBareString [js ''('', js '')'', js ''.'', [55296, 56320]] (js ''hello'') = js ''hello''"
  using getBareString_idempotent
          [of "[js ''('', js '')'', js ''.'', [55296, 56320]]" "[55296, 56320] @ js ''(hello).''"]
  by (simp add: strip_defs atMostOneCodePoint_def DEFAULT_WHITELIST_def)

subsection \<open>The attribute handler\<close>

text \<open>
  C9: an attribute or directive node without a value is skipped: whatever the
  environment and the state (the element stack may even be empty), the handler returns
  without an error and leaves the state, and so the reports, as they were.
\<close>

theorem VAttribute_no_value_skipped:
  "VAttribute e (PlainAttribute rawName None) st = Inr st
   \<and> VAttribute e (Directive keyName None) st = Inr st"
  by (simp add: VAttribute_def)

theorem VAttribute_no_value_skipped_witness:
  "VAttribute defaultEnv (PlainAttribute (js ''disabled'') None) (initialState defaultAttributes)
     = Inr (initialState defaultAttributes)
   \<and> VAttribute defaultEnv (Directive (js ''text'') None) (initialState defaultAttributes)
     = Inr (initialState defaultAttributes)"
  using VAttribute_no_value_skipped [of defaultEnv "js ''disabled''" "initialState defaultAttributes" "js ''text''"]
  by simp



text \<open>
  C5: for a directive whose name with the prefix \<^verbatim>\<open>v-\<close> is among the directive
  targets, the handler never fails, and it changes the state only by one report, and
  only when the bound expression is a string literal whose bare string is not empty;
  an expression that is not a string literal leaves the state as it was. With the
  default whitelist, \<^verbatim>\<open>v-text="'Hello'"\<close> gives one report naming \<^verbatim>\<open>v-text\<close> and
  \<^verbatim>\<open>v-text="greeting"\<close> gives none.
\<close>

theorem directive_reports_only_bare_literal:
  assumes "js ''v-'' @ keyName \<in> set (directives e)"
  shows "(\<exists>st'. VAttribute e (Directive keyName (Some (VExpressionContainer ex))) st = Inr st'
            \<and> (st' \<noteq> st \<longrightarrow>
                 (\<exists>s. ex = Some (Literal (StringValue s)) \<and> getBareString (whitelist e) s \<noteq> []
                    \<and> st' = addReport (UnexpectedInAttr (ContainerNode (VExpressionContainer ex))
                                         (js ''v-'' @ keyName)) st)))
       \<and> ((\<forall>s. ex \<noteq> Some (Literal (StringValue s))) \<longrightarrow>
            VAttribute e (Directive keyName (Some (VExpressionContainer ex))) st = Inr st)
       \<and> (keyName = js ''text'' \<and> whitelist e = DEFAULT_WHITELIST \<longrightarrow>
            VAttribute e (Directive keyName (Some (VExpressionContainer
                (Some (Literal (StringValue (js ''Hello''))))))) st
              = Inr (st\<lparr>reports := reports st @
                      [UnexpectedInAttr (ContainerNode (VExpressionContainer
                         (Some (Literal (StringValue (js ''Hello'')))))) (js ''v-text'')]\<rparr>)
            \<and> VAttribute e (Directive keyName (Some (VExpressionContainer
                (Some (Identifier (js ''greeting'')))))) st = Inr st)"
proof (intro conjI impI)
  show "\<exists>st'. VAttribute e (Directive keyName (Some (VExpressionContainer ex))) st = Inr st'
            \<and> (st' \<noteq> st \<longrightarrow>
                 (\<exists>s. ex = Some (Literal (StringValue s)) \<and> getBareString (whitelist e) s \<noteq> []
                    \<and> st' = addReport (UnexpectedInAttr (ContainerNode (VExpressionContainer ex))
                                         (js ''v-'' @ keyName)) st))"
    using assms
    by (auto simp: VAttribute_def split: option.splits expression.splits literal_value.splits)
next
  assume "\<forall>s. ex \<noteq> Some (Literal (StringValue s))"
  then show "VAttribute e (Directive keyName (Some (VExpressionContainer ex))) st = Inr st"
    using assms
    by (auto simp: VAttribute_def split: option.splits expression.splits literal_value.splits)
next
  assume a: "keyName = js ''text'' \<and> whitelist e = DEFAULT_WHITELIST"
  have h: "getBareString (whitelist e) (js ''Hello'') = js ''Hello''"
    using a by (simp add: strip_defs DEFAULT_WHITELIST_def)
  have k: "js ''v-text'' \<in> set (directives e)" using assms a by simp
  show "VAttribute e (Directive keyName (Some (VExpressionContainer
                (Some (Literal (StringValue (js ''Hello''))))))) st
              = Inr (st\<lparr>reports := reports st @
                      [UnexpectedInAttr (ContainerNode (VExpressionContainer
                         (Some (Literal (StringValue (js ''Hello'')))))) (js ''v-text'')]\<rparr>)"
    using a k h by (simp add: VAttribute_def addReport_def)
  show "VAttribute e (Directive keyName (Some (VExpressionContainer
                (Some (Identifier (js ''greeting'')))))) st = Inr st"
    using a k by (simp add: VAttribute_def)
qed

theorem directive_reports_only_bare_literal_witness:
  "js ''v-'' @ js ''text'' \<in> set (directives defaultEnv)
   \<and> whitelist defaultEnv = DEFAULT_WHITELIST
   \<and> VAttribute defaultEnv
        (Directive (js ''text'') (Some (VExpressionContainer (Some (Literal (StringValue (js ''Hello'')))))))
        (initialState defaultAttributes)
      = Inr ((initialState defaultAttributes)\<lparr>reports :=
               [UnexpectedInAttr (ContainerNode (VExpressionContainer
                  (Some (Literal (StringValue (js ''Hello'')))))) (js ''v-text'')]\<rparr>)
   \<and> VAttribute defaultEnv
        (Directive (js ''text'') (Some (VExpressionContainer (Some (Identifier (js ''greeting''))))))
        (initialState defaultAttributes)
      = Inr (initialState defaultAttributes)
   \<and> VAttribute defaultEnv
        (Directive (js ''text'') (Some (VExpressionContainer (Some (Literal NumberValue)))))
        (initialState defaultAttributes)
      = Inr (initialState defaultAttributes)"
proof -
  have d: "js ''v-'' @ js ''text'' \<in> set (directives defaultEnv)"
    by (simp add: defaultEnv_def DEFAULT_DIRECTIVES_def)
  have w: "whitelist defaultEnv = DEFAULT_WHITELIST"
    by (simp add: defaultEnv_def)
  show ?thesis
    using d w directive_reports_only_bare_literal [OF d, of "Some (Literal NumberValue)" "initialState defaultAttributes"]
    by (simp add: initialState_def)
qed

text \<open>
  C8, as the claim states it, fails: with no open element, an attribute without a
  value is skipped without an error, and a targeted directive is checked and reported
  without an error.
\<close>

theorem VAttribute_empty_stack_no_error:
  "elementStack (initialState defaultAttributes) = None
   \<and> VAttribute defaultEnv (PlainAttribute (js ''title'') None) (initialState defaultAttributes)
       = Inr (initialState defaultAttributes)
   \<and> VAttribute defaultEnv
       (Directive (js ''text'') (Some (VExpressionContainer (Some (Literal (StringValue (js ''Hello'')))))))
       (initialState defaultAttributes)
       = Inr (addReport (UnexpectedInAttr
                (ContainerNode (VExpressionContainer (Some (Literal (StringValue (js ''Hello''))))))
                (js ''v-text'')) (initialState defaultAttributes))"
proof -
  have h: "getBareString DEFAULT_WHITELIST (js ''Hello'') = js ''Hello''"
    by (simp add: strip_defs DEFAULT_WHITELIST_def)
  show ?thesis
    using h by (simp add: VAttribute_def initialState_def defaultEnv_def DEFAULT_DIRECTIVES_def)
qed

text \<open>
  C8, amended: with an empty element stack, a plain attribute that has a value makes
  the handler fail with a \<^verbatim>\<open>TypeError\<close>; an attribute without a value is skipped,
  and a directive is handled without an error, since neither reads the stack.
\<close>

theorem VAttribute_empty_stack:
  assumes "elementStack st = None"
  shows "VAttribute e (PlainAttribute rawName (Some lit)) st = Inl TypeError
       \<and> VAttribute e (PlainAttribute rawName None) st = Inr st
       \<and> (\<exists>st'. VAttribute e (Directive keyName val) st = Inr st')"
  using assms
  by (cases lit) (auto simp: VAttribute_def Let_def split: option.splits)

theorem VAttribute_empty_stack_witness:
  "elementStack (initialState defaultAttributes) = None
   \<and> VAttribute defaultEnv (PlainAttribute (js ''title'') (Some (VLiteral (js ''Hello''))))
        (initialState defaultAttributes) = Inl TypeError"
  using VAttribute_empty_stack [of "initialState defaultAttributes" defaultEnv "js ''title''" "VLiteral (js ''Hello'')"]
  by (simp add: initialState_def)

subsection \<open>The resolver\<close>



lemma getTargetAttrs_miss:
  assumes "getProperty (cache (attributes st)) tagName = Undefined"
    and "nameAttrs (attributes st) tagName = Inr xs"
    and "\<not> isKebabCase e tagName"
  shows "getTargetAttrs e (Suc n) tagName st
         = Inr (cacheStore tagName (xs @ regexpAttrs (attributes st) tagName) st)"
  using assms by (simp add: Let_def)

lemma getTargetAttrs_alias:
  assumes "getProperty (cache (attributes st)) tagName = Undefined"
    and "nameAttrs (attributes st) tagName = Inr xs"
    and "isKebabCase e tagName"
    and "getTargetAttrs e (Suc n) (pascalCase e tagName) st = Inr (SetValue s, st')"
  shows "getTargetAttrs e (Suc (Suc n)) tagName st
         = Inr (cacheStore tagName ((xs @ regexpAttrs (attributes st) tagName) @ elements s) st')"
  using assms(1,2,3)
  by (simp add: Let_def assms(4) del: getTargetAttrs.simps(2)
        add: getTargetAttrs.simps(2)[of e "Suc n" tagName st])





text \<open>
  With the casing functions modelled from the spec, the hypothesis holds for every
  name that starts with a lowercase letter, as the tag names the parser produces do:
  the Pascal form then starts with a capital letter.
\<close>

lemma pascalCase_spec_not_kebab:
  assumes "isLower c"
  shows "\<not> isKebabCase_spec (pascalCase_spec (c # cs))"
proof -
  have "c \<noteq> 45" "\<not> isLower (c - 32)" "\<not> (48 \<le> c - 32 \<and> c - 32 \<le> 57)" "c - 32 \<noteq> 45"
    using assms by (auto simp: isLower_def)
  then show ?thesis using assms
    by (auto simp: pascalCase_spec_def isKebabCase_spec_def)
qed

text \<open>Entering an element whose name needs the alias hop.\<close>

lemma VElement_alias:
  assumes c1: "getProperty (cache (attributes st)) tagName = Undefined"
    and c2: "getProperty (cache (attributes st)) (pascalCase e tagName) = Undefined"
    and n1: "nameAttrs (attributes st) tagName = Inr []"
    and n2: "nameAttrs (attributes st) (pascalCase e tagName) = Inr []"
    and r1: "regexpAttrs (attributes st) tagName = xs"
    and r2: "regexpAttrs (attributes st) (pascalCase e tagName) = xs"
    and s1: "newSet xs = xs" and s2: "newSet (xs @ xs) = xs"
    and k: "isKebabCase e tagName" and nk: "\<not> isKebabCase e (pascalCase e tagName)"
    and l: "stackLimit e = Suc (Suc n)"
  shows "VElement e tagName st
         = Inr (st\<lparr>attributes := (attributes st)\<lparr>cache := (cache (attributes st))
                       (pascalCase e tagName \<mapsto> SetObject (allocated st) xs,
                        tagName \<mapsto> SetObject (Suc (allocated st)) xs)\<rparr>,
                    allocated := Suc (Suc (allocated st)),
                    elementStack := Some (ElementStack (elementStack st) tagName
                        (SetValue (SetObject (Suc (allocated st)) xs)))\<rparr>)"
proof -
  have g: "getTargetAttrs e (Suc n) (pascalCase e tagName) st
           = Inr (SetValue (SetObject (allocated st) xs),
                  st\<lparr>attributes := (attributes st)\<lparr>cache := (cache (attributes st))
                       (pascalCase e tagName \<mapsto> SetObject (allocated st) xs)\<rparr>,
                     allocated := Suc (allocated st)\<rparr>)"
    unfolding getTargetAttrs_miss[OF c2 n2 nk] by (simp add: cacheStore_def Let_def r2 s1)
  have "getTargetAttrs e (Suc (Suc n)) tagName st
        = Inr (SetValue (SetObject (Suc (allocated st)) xs),
                st\<lparr>attributes := (attributes st)\<lparr>cache := (cache (attributes st))
                       (pascalCase e tagName \<mapsto> SetObject (allocated st) xs,
                        tagName \<mapsto> SetObject (Suc (allocated st)) xs)\<rparr>,
                    allocated := Suc (Suc (allocated st))\<rparr>)"
    unfolding getTargetAttrs_alias[OF c1 n1 k g] by (simp add: cacheStore_def Let_def r1 s2)
  then show ?thesis by (simp add: VElement_def l del: getTargetAttrs.simps)
qed

text \<open>
  The content of what the resolver returns. From a sound cache, every set the resolver
  returns holds exactly the targets of the tag name, and the cache stays sound; a
  second call returns the very value of the first and leaves the state alone.
\<close>

lemma set_newSet: "set (newSet xs) = set xs"
  by (simp add: newSet_def)

lemma resolves_same_entries:
  assumes "names a' = names a" and "regexps a' = regexps a"
  shows "resolves e a' tagName x \<longleftrightarrow> resolves e a tagName x"
proof
  assume "resolves e a' tagName x"
  then show "resolves e a tagName x"
    by (induction rule: resolves.induct) (auto simp: assms intro: resolves.intros)
next
  assume "resolves e a tagName x"
  then show "resolves e a' tagName x"
    by (induction rule: resolves.induct) (auto simp: assms[symmetric] intro: resolves.intros)
qed

lemma set_regexpAttrs:
  "set (regexpAttrs a tagName) = {x. \<exists>re xs. (re, xs) \<in> set (regexps a) \<and> re tagName \<and> x \<in> set xs}"
  by (auto simp: regexpAttrs_def) blast

lemma set_nameAttrs:
  "nameAttrs a tagName = Inr xs \<Longrightarrow> set xs = {x. \<exists>ys. names a tagName = Some ys \<and> x \<in> set ys}"
  by (auto simp: nameAttrs_def getProperty_def split: option.splits if_splits)

lemma resolves_direct:
  assumes "nameAttrs a tagName = Inr xs"
  shows "{x. resolves e a tagName x}
         = set xs \<union> set (regexpAttrs a tagName)
           \<union> (if isKebabCase e tagName then {x. resolves e a (pascalCase e tagName) x} else {})"
  unfolding set_nameAttrs[OF assms] set_regexpAttrs
  by (subst resolves.simps) auto

lemma cacheStore_sound:
  assumes "cacheSound e st" and "set ys = {x. resolves e (attributes st) tagName x}"
    and "cacheStore tagName ys st = (v, st')"
  shows "v = SetValue (SetObject (allocated st) (newSet ys))
       \<and> set (newSet ys) = {x. resolves e (attributes st) tagName x}
       \<and> cacheSound e st' \<and> names (attributes st') = names (attributes st)
       \<and> regexps (attributes st') = regexps (attributes st)"
proof -
  have st': "st' = st\<lparr>attributes := (attributes st)\<lparr>cache := (cache (attributes st))
                 (tagName \<mapsto> SetObject (allocated st) (newSet ys))\<rparr>, allocated := Suc (allocated st)\<rparr>"
    and v: "v = SetValue (SetObject (allocated st) (newSet ys))"
    using assms(3) by (auto simp: cacheStore_def Let_def)
  have same: "\<And>t x. resolves e (attributes st') t x \<longleftrightarrow> resolves e (attributes st) t x"
    by (rule resolves_same_entries) (simp_all add: st')
  have "cacheSound e st'"
    unfolding cacheSound_def same using assms(1,2)
    by (auto simp: st' cacheSound_def set_newSet)
  then show ?thesis using v assms(2) by (simp add: set_newSet st')
qed

lemma cacheSound_initial: "cacheSound e (initialState (a\<lparr>cache := Map.empty\<rparr>))"
  by (simp add: cacheSound_def initialState_def)

lemma getTargetAttrs_sound:
  assumes "cacheSound e st" and "getTargetAttrs e n tagName st = Inr (SetValue s, st')"
  shows "set (elements s) = {x. resolves e (attributes st) tagName x}
       \<and> cacheSound e st' \<and> names (attributes st') = names (attributes st)
       \<and> regexps (attributes st') = regexps (attributes st)"
  using assms
proof (induction n arbitrary: tagName st s st')
  case 0
  then show ?case by simp
next
  case (Suc n)
  show ?case
  proof (cases "getProperty (cache (attributes st)) tagName")
    case (Own s0)
    then have "cache (attributes st) tagName = Some s0"
      by (auto simp: getProperty_def split: option.splits if_splits)
    moreover have "s = s0" "st' = st" using Suc.prems(2) Own by simp_all
    ultimately show ?thesis using Suc.prems(1) by (simp add: cacheSound_def)
  next
    case (Inherited k)
    then show ?thesis using Suc.prems(2) by simp
  next
    case Undefined
    then obtain xs where xs: "nameAttrs (attributes st) tagName = Inr xs"
      using Suc.prems(2) by (cases "nameAttrs (attributes st) tagName") simp_all
    note direct = resolves_direct[OF xs, of e]
    show ?thesis
    proof (cases "isKebabCase e tagName")
      case False
      then have cs: "cacheStore tagName (xs @ regexpAttrs (attributes st) tagName) st = (SetValue s, st')"
        using Suc.prems(2) Undefined xs by (simp add: Let_def)
      have "set (xs @ regexpAttrs (attributes st) tagName) = {x. resolves e (attributes st) tagName x}"
        using direct False by simp
      from cacheStore_sound[OF Suc.prems(1) this cs] show ?thesis by auto
    next
      case True
      then obtain s1 st1 where
        rec: "getTargetAttrs e n (pascalCase e tagName) st = Inr (SetValue s1, st1)"
        and cs: "cacheStore tagName ((xs @ regexpAttrs (attributes st) tagName) @ elements s1) st1 = (SetValue s, st')"
        using Suc.prems(2) Undefined xs
        by (auto simp: Let_def split: sum.splits jsvalue.splits)
      from Suc.IH[OF Suc.prems(1) rec] have
        ih: "set (elements s1) = {x. resolves e (attributes st) (pascalCase e tagName) x}"
        and snd1: "cacheSound e st1"
        and same: "names (attributes st1) = names (attributes st)" "regexps (attributes st1) = regexps (attributes st)"
        by simp_all
      have eq: "\<And>t x. resolves e (attributes st1) t x \<longleftrightarrow> resolves e (attributes st) t x"
        by (rule resolves_same_entries[OF same])
      have "set ((xs @ regexpAttrs (attributes st) tagName) @ elements s1)
            = {x. resolves e (attributes st1) tagName x}"
        unfolding eq using direct True ih by auto
      from cacheStore_sound[OF snd1 this cs] show ?thesis using same eq by auto
    qed
  qed
qed

lemma getTargetAttrs_again:
  assumes "getTargetAttrs e n tagName st = Inr (v, st')"
  shows "getTargetAttrs e (Suc m) tagName st' = Inr (v, st')"
proof (cases n)
  case 0
  then show ?thesis using assms by simp
next
  case (Suc k)
  show ?thesis
  proof (cases "getProperty (cache (attributes st)) tagName")
    case (Own s0)
    then show ?thesis using assms Suc by auto
  next
    case (Inherited key)
    then show ?thesis using assms Suc by auto
  next
    case Undefined
    then obtain ys st1 where "cacheStore tagName ys st1 = (v, st')"
      using assms Suc
      by (auto simp: Let_def split: sum.splits jsvalue.splits if_splits)
    then obtain s where "v = SetValue s" "cache (attributes st') tagName = Some s"
      by (auto simp: cacheStore_def Let_def)
    then show ?thesis by (simp add: getProperty_def)
  qed
qed

text \<open>The default configuration at the tag names of the examples.\<close>

lemma defaultEnv_casing:
  "isKebabCase defaultEnv (js ''div'')" "pascalCase defaultEnv (js ''div'') = js ''Div''"
  "isKebabCase defaultEnv (js ''span'')" "pascalCase defaultEnv (js ''span'') = js ''Span''"
  "\<not> isKebabCase defaultEnv (js ''Div'')" "\<not> isKebabCase defaultEnv (js ''Span'')"
  by (simp_all add: defaultEnv_def isKebabCase_spec_def pascalCase_spec_def isLower_def)

lemma default_lookup:
  assumes "names a = names defaultAttributes" "regexps a = regexps defaultAttributes"
    and "t \<in> set [js ''div'', js ''Div'', js ''span'', js ''Span'']"
  shows "nameAttrs a t = Inr []" "regexpAttrs a t = titleTargets"
proof -
  have "t \<notin> set objectPrototypeKeys" "names defaultAttributes t = None" "anyName t"
    using assms(3) by (auto simp: objectPrototypeKeys_def defaultAttributes_def anyName_def)
  then show "nameAttrs a t = Inr []" "regexpAttrs a t = titleTargets"
    by (simp_all add: nameAttrs_def getProperty_def regexpAttrs_def assms(1,2))
       (simp add: defaultAttributes_def titleTargets_def)
qed

lemma newSet_titleTargets: "newSet titleTargets = titleTargets" "newSet (titleTargets @ titleTargets) = titleTargets"
  by (simp_all add: newSet_def titleTargets_def)

lemma limit: "stackLimit defaultEnv = Suc (Suc 6)"
  by (simp add: defaultEnv_def)

lemma not_proto: "js ''div'' \<notin> set objectPrototypeKeys" "js ''Div'' \<notin> set objectPrototypeKeys"
   "js ''span'' \<notin> set objectPrototypeKeys" "js ''Span'' \<notin> set objectPrototypeKeys"
  by (simp_all add: objectPrototypeKeys_def)

lemma lookup_constructor:
  "getTargetAttrs defaultEnv (stackLimit defaultEnv) (js ''constructor'') (initialState defaultAttributes)
   = Inr (PrototypeValue (js ''constructor''), initialState defaultAttributes)"
proof -
  have g: "getProperty (cache (attributes (initialState defaultAttributes))) (js ''constructor'')
        = Inherited (js ''constructor'')"
    by (simp add: getProperty_def initialState_def defaultAttributes_def objectPrototypeKeys_def)
  show ?thesis unfolding limit getTargetAttrs.simps(2) g by simp
qed

text \<open>
  C1 fails on the code at the tag name \<^verbatim>\<open>constructor\<close>: the cache object inherits a
  property of that name from \<^verbatim>\<open>Object.prototype\<close>, so the resolver returns that value
  and not a set, although the pattern \<^verbatim>\<open>/.+/\<close> makes \<^verbatim>\<open>title\<close> a target of the
  name; checking an attribute of such an element then fails with a \<^verbatim>\<open>TypeError\<close>.
\<close>

theorem getTargetAttrs_constructor_not_a_set:
  "getTargetAttrs defaultEnv (stackLimit defaultEnv) (js ''constructor'') (initialState defaultAttributes)
     = Inr (PrototypeValue (js ''constructor''), initialState defaultAttributes)
   \<and> resolves defaultEnv defaultAttributes (js ''constructor'') (js ''title'')
   \<and> run defaultEnv
         [EnterVElement (js ''constructor''),
          VisitVAttribute (PlainAttribute (js ''title'') (Some (VLiteral (js ''Hello''))))]
         (initialState defaultAttributes)
     = Inl TypeError"
proof -
  have r: "resolves defaultEnv defaultAttributes (js ''constructor'') (js ''title'')"
    by (rule resolves.byPattern[of anyName titleTargets])
       (simp_all add: defaultAttributes_def anyName_def titleTargets_def)
  have v: "VElement defaultEnv (js ''constructor'') (initialState defaultAttributes)
           = Inr ((initialState defaultAttributes)\<lparr>elementStack :=
                    Some (ElementStack None (js ''constructor'') (PrototypeValue (js ''constructor'')))\<rparr>)"
    unfolding VElement_def lookup_constructor by (simp add: initialState_def)
  have a: "VAttribute defaultEnv (PlainAttribute (js ''title'') (Some (VLiteral (js ''Hello''))))
             ((initialState defaultAttributes)\<lparr>elementStack :=
                    Some (ElementStack None (js ''constructor'') (PrototypeValue (js ''constructor'')))\<rparr>)
           = Inl TypeError"
    by (simp add: VAttribute_def has_def)
  show ?thesis using lookup_constructor r v a by simp
qed

text \<open>
  C6 fails on the code at the same tag name. Two calls for \<^verbatim>\<open>constructor\<close> do
  return the same value, but it is the inherited property and not a set, and nothing is
  stored in the cache for the name. A recomputation cannot equal it in content: the
  steps of the code without the cache check fail at the lookup in \<^verbatim>\<open>names\<close>, which
  inherits the same property, and the pattern \<^verbatim>\<open>/.+/\<close> lists \<^verbatim>\<open>title\<close> for the
  name.
\<close>

theorem getTargetAttrs_constructor_never_cached:
  "getTargetAttrs defaultEnv (stackLimit defaultEnv) (js ''constructor'') (initialState defaultAttributes)
     = Inr (PrototypeValue (js ''constructor''), initialState defaultAttributes)
   \<and> cache (attributes (initialState defaultAttributes)) (js ''constructor'') = None
   \<and> nameAttrs (attributes (initialState defaultAttributes)) (js ''constructor'') = Inl TypeError
   \<and> js ''title'' \<in> set (regexpAttrs (attributes (initialState defaultAttributes)) (js ''constructor''))"
  using lookup_constructor
  by (simp add: initialState_def defaultAttributes_def regexpAttrs_def anyName_def titleTargets_def
        nameAttrs_def getProperty_def objectPrototypeKeys_def)

subsection \<open>The element stack\<close>

lemma VText_stack: "VText e v st = Inr st' \<Longrightarrow> elementStack st' = elementStack st"
  by (auto simp: VText_def addReport_def split: if_splits)

lemma VAttribute_stack: "VAttribute e node st = Inr st' \<Longrightarrow> elementStack st' = elementStack st"
  by (auto simp: VAttribute_def addReport_def Let_def
      split: if_splits attribute_node.splits option.splits VLiteral.splits sum.splits)

lemma VElement_stack:
  "VElement e rawName st = Inr st' \<Longrightarrow>
     \<exists>v st0. getTargetAttrs e (stackLimit e) rawName st = Inr (v, st0)
        \<and> elementStack st' = Some (ElementStack (elementStack st) rawName v)"
  by (auto simp: VElement_def split: sum.splits)

lemma VElement_exit_stack:
  "VElement_exit st = Inr st' \<Longrightarrow> \<exists>frame. elementStack st = Some frame \<and> elementStack st' = upper frame"
  by (auto simp: VElement_exit_def split: option.splits)

lemma run_popN:
  "nesting evs d = Some d' \<Longrightarrow> run e evs st = Inr st' \<Longrightarrow> popN d (elementStack st) = Some base
     \<Longrightarrow> popN d' (elementStack st') = Some base"
proof (induction evs arbitrary: d st)
  case Nil
  then show ?case by simp
next
  case (Cons ev evs)
  from Cons.prems(2) obtain st1 where d1: "dispatch e ev st = Inr st1" and r1: "run e evs st1 = Inr st'"
    by (auto split: sum.splits)
  show ?case
  proof (cases ev)
    case (EnterVElement rawName)
    from d1 EnterVElement obtain v where "elementStack st1 = Some (ElementStack (elementStack st) rawName v)"
      using VElement_stack by fastforce
    then have "popN (Suc d) (elementStack st1) = Some base" using Cons.prems(3) by simp
    moreover have "nesting evs (Suc d) = Some d'" using Cons.prems(1) EnterVElement by simp
    ultimately show ?thesis using Cons.IH r1 by blast
  next
    case ExitVElement
    from Cons.prems(1) ExitVElement obtain d0 where d: "d = Suc d0" and n: "nesting evs d0 = Some d'"
      by (auto split: nat.splits)
    from d1 ExitVElement obtain frame where "elementStack st = Some frame" "elementStack st1 = upper frame"
      using VElement_exit_stack by fastforce
    then have "popN d0 (elementStack st1) = Some base" using Cons.prems(3) d by simp
    then show ?thesis using Cons.IH n r1 by blast
  next
    case (VisitVText v)
    then have "elementStack st1 = elementStack st" using d1 VText_stack by simp
    moreover have "nesting evs d = Some d'" using Cons.prems(1) VisitVText by simp
    ultimately show ?thesis using Cons.IH r1 Cons.prems(3) by metis
  next
    case (VisitVAttribute node)
    then have "elementStack st1 = elementStack st" using d1 VAttribute_stack by simp
    moreover have "nesting evs d = Some d'" using Cons.prems(1) VisitVAttribute by simp
    ultimately show ?thesis using Cons.IH r1 Cons.prems(3) by metis
  qed
qed

lemma run_wellNested:
  "wellNested evs \<Longrightarrow> run e evs st = Inr st' \<Longrightarrow> elementStack st' = elementStack st"
  using run_popN[of evs 0 0 e st st' "elementStack st"] by (simp add: wellNested_def)

text \<open>
  The stack discipline. Entering an element pushes a frame with the raw tag name, the
  value \<^verbatim>\<open>getTargetAttrs\<close> returned for it and the previous stack as \<^verbatim>\<open>upper\<close>.
  After any well-nested events inside the element (inner elements entered and left
  again), that frame is still the current one, a plain attribute is checked with
  \<^verbatim>\<open>has\<close> on the value in that frame, and leaving the element restores the stack that
  was current before it was entered.
\<close>

theorem elementStack_mirrors_nesting:
  assumes "wellNested inner" and "run e (EnterVElement rawName # inner) st = Inr st1"
  shows "\<exists>v st0. getTargetAttrs e (stackLimit e) rawName st = Inr (v, st0)
          \<and> elementStack st1 = Some (ElementStack (elementStack st) rawName v)
          \<and> VAttribute e (PlainAttribute k (Some (VLiteral s))) st1 =
               (case has v k of
                  Inl err \<Rightarrow> Inl err
                | Inr b \<Rightarrow> Inr (if b \<and> getBareString (whitelist e) s \<noteq> []
                                then addReport (UnexpectedInAttr (LiteralNode (VLiteral s)) k) st1
                                else st1))
          \<and> (\<exists>st2. VElement_exit st1 = Inr st2 \<and> elementStack st2 = elementStack st)"
proof -
  from assms(2) obtain st0' where en: "VElement e rawName st = Inr st0'" and r: "run e inner st0' = Inr st1"
    by (auto split: sum.splits)
  from VElement_stack[OF en] obtain v st0 where
    g: "getTargetAttrs e (stackLimit e) rawName st = Inr (v, st0)"
    and f: "elementStack st0' = Some (ElementStack (elementStack st) rawName v)" by blast
  have top: "elementStack st1 = Some (ElementStack (elementStack st) rawName v)"
    using run_wellNested[OF assms(1) r] f by simp
  have a: "VAttribute e (PlainAttribute k (Some (VLiteral s))) st1 =
               (case has v k of
                  Inl err \<Rightarrow> Inl err
                | Inr b \<Rightarrow> Inr (if b \<and> getBareString (whitelist e) s \<noteq> []
                                then addReport (UnexpectedInAttr (LiteralNode (VLiteral s)) k) st1
                                else st1))"
    by (simp add: VAttribute_def top split: sum.splits)
  have x: "\<exists>st2. VElement_exit st1 = Inr st2 \<and> elementStack st2 = elementStack st"
    by (simp add: VElement_exit_def top)
  show ?thesis using g top a x by blast
qed

text \<open>The run of the example, handler by handler.\<close>

lemma run_nestedEvents:
  "run defaultEnv (EnterVElement (js ''div'') # nestedEvents) (initialState defaultAttributes) = Inr insideDiv"
proof -
  define s0 where "s0 = initialState defaultAttributes"
  define divSet where "divSet = SetValue (SetObject 1 titleTargets)"
  define s1 where "s1 =
     \<lparr>attributes = defaultAttributes\<lparr>cache :=
        [js ''Div'' \<mapsto> SetObject 0 titleTargets, js ''div'' \<mapsto> SetObject 1 titleTargets]\<rparr>,
      allocated = 2,
      elementStack = Some (ElementStack None (js ''div'') (SetValue (SetObject 1 titleTargets))),
      reports = []\<rparr>"
  define s2 where "s2 = s1\<lparr>reports := [UnexpectedInAttr (LiteralNode (VLiteral (js ''Ok''))) (js ''title'')]\<rparr>"
  define s3 where "s3 = s2\<lparr>attributes := defaultAttributes\<lparr>cache :=
        [js ''Div'' \<mapsto> SetObject 0 titleTargets, js ''div'' \<mapsto> SetObject 1 titleTargets,
         js ''Span'' \<mapsto> SetObject 2 titleTargets, js ''span'' \<mapsto> SetObject 3 titleTargets]\<rparr>,
      allocated := 4,
      elementStack := Some (ElementStack (elementStack s1) (js ''span'') (SetValue (SetObject 3 titleTargets)))\<rparr>"
  define s4 where "s4 = s3\<lparr>reports := [UnexpectedInAttr (LiteralNode (VLiteral (js ''Ok''))) (js ''title''),
                 UnexpectedInAttr (LiteralNode (VLiteral (js ''Hi''))) (js ''title'')]\<rparr>"
  have e1: "VElement defaultEnv (js ''div'') s0 = Inr s1"
  proof -
    have c: "getProperty (cache (attributes s0)) (js ''div'') = Undefined"
            "getProperty (cache (attributes s0)) (pascalCase defaultEnv (js ''div'')) = Undefined"
      unfolding defaultEnv_casing using not_proto
      by (simp_all add: s0_def initialState_def defaultAttributes_def getProperty_def)
    have a: "names (attributes s0) = names defaultAttributes" "regexps (attributes s0) = regexps defaultAttributes"
      by (simp_all add: s0_def initialState_def)
    have n: "nameAttrs (attributes s0) (js ''div'') = Inr []"
            "nameAttrs (attributes s0) (pascalCase defaultEnv (js ''div'')) = Inr []"
            "regexpAttrs (attributes s0) (js ''div'') = titleTargets"
            "regexpAttrs (attributes s0) (pascalCase defaultEnv (js ''div'')) = titleTargets"
      unfolding defaultEnv_casing by (rule default_lookup[OF a], simp)+
    have nk: "\<not> isKebabCase defaultEnv (pascalCase defaultEnv (js ''div''))"
      unfolding defaultEnv_casing by (rule defaultEnv_casing)
    show ?thesis
      unfolding VElement_alias[OF c n newSet_titleTargets defaultEnv_casing(1) nk limit]
      unfolding defaultEnv_casing
      by (simp add: s0_def s1_def initialState_def defaultAttributes_def)
  qed
  have bare: "getBareString (whitelist defaultEnv) (js ''Ok'') \<noteq> []"
             "getBareString (whitelist defaultEnv) (js ''Hi'') \<noteq> []"
    by (simp_all add: defaultEnv_def strip_defs
          DEFAULT_WHITELIST_def)
  have e2: "VAttribute defaultEnv (PlainAttribute (js ''title'') (Some (VLiteral (js ''Ok'')))) s1 = Inr s2"
    using bare(1) by (simp add: VAttribute_def s1_def s2_def has_def titleTargets_def addReport_def)
  have e3: "VElement defaultEnv (js ''span'') s2 = Inr s3"
  proof -
    have c: "getProperty (cache (attributes s2)) (js ''span'') = Undefined"
            "getProperty (cache (attributes s2)) (pascalCase defaultEnv (js ''span'')) = Undefined"
      unfolding defaultEnv_casing using not_proto
      by (simp_all add: s2_def s1_def getProperty_def)
    have a: "names (attributes s2) = names defaultAttributes" "regexps (attributes s2) = regexps defaultAttributes"
      by (simp_all add: s2_def s1_def)
    have n: "nameAttrs (attributes s2) (js ''span'') = Inr []"
            "nameAttrs (attributes s2) (pascalCase defaultEnv (js ''span'')) = Inr []"
            "regexpAttrs (attributes s2) (js ''span'') = titleTargets"
            "regexpAttrs (attributes s2) (pascalCase defaultEnv (js ''span'')) = titleTargets"
      unfolding defaultEnv_casing by (rule default_lookup[OF a], simp)+
    have nk: "\<not> isKebabCase defaultEnv (pascalCase defaultEnv (js ''span''))"
      unfolding defaultEnv_casing by (rule defaultEnv_casing)
    show ?thesis
      unfolding VElement_alias[OF c n newSet_titleTargets defaultEnv_casing(3) nk limit]
      unfolding defaultEnv_casing
      by (simp add: s1_def s2_def s3_def)
  qed
  have e4: "VAttribute defaultEnv (PlainAttribute (js ''title'') (Some (VLiteral (js ''Hi'')))) s3 = Inr s4"
    using bare(2) by (simp add: VAttribute_def s3_def s4_def has_def titleTargets_def addReport_def s2_def)
  have e5: "VElement_exit s4 = Inr insideDiv"
    by (simp add: VElement_exit_def s4_def s3_def s2_def s1_def insideDiv_def)
  show ?thesis
    unfolding nestedEvents_def s0_def[symmetric] using e1 e2 e3 e4 e5 by simp
qed

theorem elementStack_mirrors_nesting_witness:
  "wellNested nestedEvents
   \<and> run defaultEnv (EnterVElement (js ''div'') # nestedEvents) (initialState defaultAttributes) = Inr insideDiv
   \<and> elementStack insideDiv = Some (ElementStack None (js ''div'') (SetValue (SetObject 1 titleTargets)))
   \<and> (\<exists>v st0. getTargetAttrs defaultEnv (stackLimit defaultEnv) (js ''div'') (initialState defaultAttributes)
                  = Inr (v, st0)
          \<and> elementStack insideDiv = Some (ElementStack None (js ''div'') v))
   \<and> (\<exists>st2. VElement_exit insideDiv = Inr st2 \<and> elementStack st2 = None)"
proof -
  have w: "wellNested nestedEvents"
    by (simp add: wellNested_def nestedEvents_def)
  have s: "elementStack (initialState defaultAttributes) = None"
    by (simp add: initialState_def)
  have i: "elementStack insideDiv = Some (ElementStack None (js ''div'') (SetValue (SetObject 1 titleTargets)))"
    by (simp add: insideDiv_def)
  show ?thesis
    using w run_nestedEvents i
      elementStack_mirrors_nesting [OF w run_nestedEvents, of "js ''title''" "js ''Ok''"]
    unfolding s by blast
qed

text \<open>
  Where the resolver returned a set for the element, the check is membership in the
  element's own resolved targets: from a sound cache, a plain attribute inside the
  element is reported exactly when the resolution algorithm makes it a target of the
  element's tag name and its value is bare.
\<close>

lemma plain_attribute_checked_against_targets:
  assumes "cacheSound e st" and "wellNested inner"
    and "run e (EnterVElement rawName # inner) st = Inr st1"
    and "getTargetAttrs e (stackLimit e) rawName st = Inr (SetValue s, st0)"
  shows "elementStack st1 = Some (ElementStack (elementStack st) rawName (SetValue s))
       \<and> set (elements s) = {x. resolves e (attributes st) rawName x}
       \<and> VAttribute e (PlainAttribute k (Some (VLiteral x))) st1
           = Inr (if resolves e (attributes st) rawName k \<and> getBareString (whitelist e) x \<noteq> []
                  then addReport (UnexpectedInAttr (LiteralNode (VLiteral x)) k) st1
                  else st1)"
proof -
  from elementStack_mirrors_nesting[OF assms(2,3), of k x] assms(4)
  have top: "elementStack st1 = Some (ElementStack (elementStack st) rawName (SetValue s))"
    and a: "VAttribute e (PlainAttribute k (Some (VLiteral x))) st1 =
               (case has (SetValue s) k of
                  Inl err \<Rightarrow> Inl err
                | Inr b \<Rightarrow> Inr (if b \<and> getBareString (whitelist e) x \<noteq> []
                                then addReport (UnexpectedInAttr (LiteralNode (VLiteral x)) k) st1
                                else st1))"
    by auto
  have c: "set (elements s) = {x. resolves e (attributes st) rawName x}"
    using getTargetAttrs_sound[OF assms(1,4)] by simp
  then have "has (SetValue s) k = Inr (resolves e (attributes st) rawName k)"
    by (simp add: has_def)
  then show ?thesis using top a c by simp
qed

text \<open>
  C4 fails on the code at the tag name \<^verbatim>\<open>constructor\<close>, by the defect of C1: the
  frame pushed for \<^verbatim>\<open><constructor title="Hello">\<close> holds the raw name and the
  property the cache object inherits from \<^verbatim>\<open>Object.prototype\<close>, not the element's
  resolved target set, which lists \<^verbatim>\<open>title\<close>. No attribute of the element is
  checked against that set: the check of a target such as \<^verbatim>\<open>title\<close> and the check of
  any other attribute both fail with a \<^verbatim>\<open>TypeError\<close>.
\<close>

theorem elementStack_constructor_frame_holds_no_set:
  "VElement defaultEnv (js ''constructor'') (initialState defaultAttributes)
     = Inr ((initialState defaultAttributes)\<lparr>elementStack :=
              Some (ElementStack None (js ''constructor'') (PrototypeValue (js ''constructor'')))\<rparr>)
   \<and> resolves defaultEnv defaultAttributes (js ''constructor'') (js ''title'')
   \<and> VAttribute defaultEnv (PlainAttribute (js ''title'') (Some (VLiteral (js ''Hello''))))
         ((initialState defaultAttributes)\<lparr>elementStack :=
              Some (ElementStack None (js ''constructor'') (PrototypeValue (js ''constructor'')))\<rparr>)
     = Inl TypeError
   \<and> VAttribute defaultEnv (PlainAttribute (js ''id'') (Some (VLiteral (js ''main''))))
         ((initialState defaultAttributes)\<lparr>elementStack :=
              Some (ElementStack None (js ''constructor'') (PrototypeValue (js ''constructor'')))\<rparr>)
     = Inl TypeError"
proof -
  have v: "VElement defaultEnv (js ''constructor'') (initialState defaultAttributes)
           = Inr ((initialState defaultAttributes)\<lparr>elementStack :=
                    Some (ElementStack None (js ''constructor'') (PrototypeValue (js ''constructor'')))\<rparr>)"
    unfolding VElement_def lookup_constructor by (simp add: initialState_def)
  have r: "resolves defaultEnv defaultAttributes (js ''constructor'') (js ''title'')"
    by (rule resolves.byPattern[of anyName titleTargets])
       (simp_all add: defaultAttributes_def anyName_def titleTargets_def)
  have a: "VAttribute defaultEnv (PlainAttribute k (Some (VLiteral x)))
             ((initialState defaultAttributes)\<lparr>elementStack :=
                    Some (ElementStack None (js ''constructor'') (PrototypeValue (js ''constructor'')))\<rparr>)
           = Inl TypeError" for k x
    by (simp add: VAttribute_def has_def)
  show ?thesis using v r a[of "js ''title''" "js ''Hello''"] a[of "js ''id''" "js ''main''"] by simp
qed

end
